theory Spec2Isabelle
  imports Complex_Main
begin

section \<open>Topology models of r2x (src/r2x/models/topology.py)\<close>

text \<open>
  The module declares validated records: each class lists fields with a type, an optional
  default and declarative constraints, and the validation library turns a call
  \<^verbatim>\<open>Cls(key=value, ...)\<close> into either an instance or one \<^verbatim>\<open>ValidationError\<close>
  carrying one entry per offending field. The embedding keeps that shape: the class
  declarations become tables of field declarations, the keyword arguments an association
  list, and construction a function into \<open>ValidationError + instance\<close>.

  Python floats are idealised as reals (no NaN, no infinities, no rounding); Python's
  unbounded integers are \<open>int\<close>.
\<close>

subsection \<open>Values\<close>

text \<open>
  Modelled from the spec: \<^verbatim>\<open>r2x.enums.ACBusTypes\<close> is not in the sources at hand. The spec
  describes it as a finite closed set of role tags and names slack, PV and PQ; the
  module itself only uses \<^verbatim>\<open>ACBusTypes.PV\<close>.
\<close>

datatype ACBusTypes = PQ | PV | SLACK

text \<open>
  Modelled from the spec: \<^verbatim>\<open>r2x.units\<close> (\<^verbatim>\<open>Voltage\<close>, \<^verbatim>\<open>ureg\<close>) is not in the sources at
  hand. The spec asks for a quantity pairing a magnitude with a unit tag from a closed
  registry, with a dimension check and a comparison of the magnitude with zero. The
  module uses \<^verbatim>\<open>ureg.kV\<close>; the spec also mentions MW/Hz.
\<close>

datatype unit = volt | kV | MW | Hz

fun is_voltage :: "unit \<Rightarrow> bool" where
  "is_voltage volt = True"
| "is_voltage kV = True"
| "is_voltage MW = False"
| "is_voltage Hz = False"

datatype cls =
  Topology | AggregationTopology | Area | LoadZone | Bus | DCBus | ACBus | Arc

text \<open>
  The Python values a keyword argument can carry. \<open>VMinMax\<close> is a min/max pair as
  supplied; \<open>VInst\<close> is an instance of one of the classes with its attribute dictionary,
  in declaration order.
\<close>

datatype pyval =
    VNone
  | VBool bool
  | VInt int
  | VFloat real
  | VStr string
  | VEnum ACBusTypes
  | VQuantity real unit
  | VMinMax real real
  | VInst (cls_of: cls) (attrs: "(string \<times> pyval) list")

type_synonym kwargs = "(string \<times> pyval) list"

definition getattr :: "pyval \<Rightarrow> string \<Rightarrow> pyval option" where
  "getattr obj k = map_of (attrs obj) k"

text \<open>\<^verbatim>\<open>20 * ureg.kV\<close>: an integer times a unit is a quantity in that unit.\<close>

definition times_unit :: "int \<Rightarrow> unit \<Rightarrow> pyval" where
  "times_unit n u = VQuantity (of_int n) u"

subsection \<open>Validation errors\<close>

datatype reason =
    Missing
  | ExtraForbidden
  | WrongType
  | NotGreaterThan real
  | NotGreaterEqual real
  | NotLessThan real
  | UnitMismatch
  | MinAboveMax

datatype error_detail = ErrorDetail (loc: string) (why: reason)

type_synonym ValidationError = "error_detail list"

subsection \<open>Field declarations\<close>

datatype ftype = TInt | TFloat | TStr | TEnum | TModel cls | TMinMax | TVoltage

datatype constraint = Gt real | Ge real | Lt real

text \<open>
  One field of a class body: \<open>nullable\<close> is the \<^verbatim>\<open>| None\<close> of the annotation,
  \<open>default_value\<close> is \<open>None\<close> for a required field, \<open>field_alias\<close>, \<open>frozen\<close> and \<open>exclude\<close> are
  the arguments of \<^verbatim>\<open>Field(...)\<close>.
\<close>

record field =
  fname :: string
  ftype :: ftype
  constraints :: "constraint list"
  nullable :: bool
  default_value :: "pyval option"
  field_alias :: "string option"
  frozen :: bool
  exclude :: bool

definition plain :: "string \<Rightarrow> ftype \<Rightarrow> constraint list \<Rightarrow> bool \<Rightarrow> pyval option \<Rightarrow> field" where
  "plain n t cs nl d =
     \<lparr>fname = n, ftype = t, constraints = cs, nullable = nl, default_value = d,
      field_alias = None, frozen = False, exclude = False\<rparr>"

text \<open>\<^verbatim>\<open>PositiveInt\<close> is \<^verbatim>\<open>Annotated[int, Gt(0)]\<close>, \<^verbatim>\<open>NonNegativeFloat\<close> is
  \<^verbatim>\<open>Annotated[float, Ge(0)]\<close>.\<close>

definition PositiveInt :: "constraint list" where
  "PositiveInt = [Gt 0]"

definition NonNegativeFloat :: "constraint list" where
  "NonNegativeFloat = [Ge 0]"

text \<open>
  Modelled from the spec: \<^verbatim>\<open>r2x.models.core.BaseComponent\<close> is not in the sources at hand.
  The spec gives it one attribute, the text identifier \<open>name\<close>, and lists a missing
  required field among the violations; \<open>name\<close> is taken as a required text field.
\<close>

definition BaseComponent_fields :: "field list" where
  "BaseComponent_fields = [plain ''name'' TStr [] False None]"

text \<open>
  A class body extends the fields of its base: a field declared again replaces the
  inherited declaration in place, new fields follow.
\<close>

definition inherit :: "field list \<Rightarrow> field list \<Rightarrow> field list" where
  "inherit base body =
     map (\<lambda>f. case find (\<lambda>g. fname g = fname f) body of None \<Rightarrow> f | Some g \<Rightarrow> g) base
     @ filter (\<lambda>g. \<not> list_ex (\<lambda>f. fname f = fname g) base) body"

definition Topology_fields :: "field list" where
  "Topology_fields = inherit BaseComponent_fields []"

definition AggregationTopology_fields :: "field list" where
  "AggregationTopology_fields = inherit Topology_fields []"

definition Area_fields :: "field list" where
  "Area_fields = inherit AggregationTopology_fields
     [plain ''peak_active_power'' TFloat NonNegativeFloat False (Some (VFloat 0)),
      plain ''peak_reactive_power'' TFloat NonNegativeFloat False (Some (VFloat 0)),
      plain ''load_response'' TFloat [] False (Some (VFloat 0))]"

definition LoadZone_fields :: "field list" where
  "LoadZone_fields = inherit AggregationTopology_fields
     [plain ''peak_active_power'' TFloat NonNegativeFloat False (Some (VFloat 0)),
      plain ''peak_reactive_power'' TFloat NonNegativeFloat False (Some (VFloat 0))]"

definition Bus_fields :: "field list" where
  "Bus_fields = inherit Topology_fields
     [plain ''number'' TInt PositiveInt False None,
      plain ''bustype'' TEnum [] True (Some VNone),
      plain ''area'' (TModel Area) [] True (Some VNone),
      plain ''load_zone'' (TModel LoadZone) [] True (Some VNone),
      plain ''voltage_limits'' TMinMax [] True (Some VNone),
      plain ''base_voltage'' TVoltage [Gt 0] True (Some VNone),
      plain ''magnitude'' TFloat NonNegativeFloat True (Some VNone)]"

definition DCBus_fields :: "field list" where
  "DCBus_fields = inherit Bus_fields []"

definition ACBus_fields :: "field list" where
  "ACBus_fields = inherit Bus_fields
     [plain ''angle'' TFloat [Gt (- 1.571), Lt 1.571] True (Some VNone)]"

definition Arc_fields :: "field list" where
  "Arc_fields = inherit Topology_fields
     [(plain ''name'' TStr [] False (Some (VStr '''')))\<lparr>frozen := True, exclude := True\<rparr>,
      (plain ''from_to'' (TModel Bus) [] False None)\<lparr>field_alias := Some ''from''\<rparr>,
      (plain ''to_from'' (TModel Bus) [] False None)\<lparr>field_alias := Some ''to''\<rparr>]"

fun model_fields :: "cls \<Rightarrow> field list" where
  "model_fields Topology = Topology_fields"
| "model_fields AggregationTopology = AggregationTopology_fields"
| "model_fields Area = Area_fields"
| "model_fields LoadZone = LoadZone_fields"
| "model_fields Bus = Bus_fields"
| "model_fields DCBus = DCBus_fields"
| "model_fields ACBus = ACBus_fields"
| "model_fields Arc = Arc_fields"

text \<open>The base named in each \<^verbatim>\<open>class\<close> statement (\<open>None\<close>: \<^verbatim>\<open>BaseComponent\<close>).\<close>

fun superclass :: "cls \<Rightarrow> cls option" where
  "superclass Topology = None"
| "superclass AggregationTopology = Some Topology"
| "superclass Area = Some AggregationTopology"
| "superclass LoadZone = Some AggregationTopology"
| "superclass Bus = Some Topology"
| "superclass DCBus = Some Bus"
| "superclass ACBus = Some Bus"
| "superclass Arc = Some Topology"

text \<open>\<^verbatim>\<open>issubclass(c, d)\<close>; the hierarchy is three levels deep.\<close>

definition issubclass :: "cls \<Rightarrow> cls \<Rightarrow> bool" where
  "issubclass c d =
     (c = d \<or> superclass c = Some d
      \<or> Option.bind (superclass c) superclass = Some d
      \<or> Option.bind (Option.bind (superclass c) superclass) superclass = Some d)"

subsection \<open>Validating one value\<close>

text \<open>
  Modelled from the spec: \<^verbatim>\<open>r2x.models.named_tuples.MinMax\<close> is not in the sources at hand.
  The spec describes it as a min/max pair whose own constructor enforces min \<open>\<le>\<close> max and
  fails with a ValidationError otherwise.
\<close>

definition MinMax_new :: "real \<Rightarrow> real \<Rightarrow> ValidationError + pyval" where
  "MinMax_new mn mx =
     (if mn \<le> mx then Inr (VMinMax mn mx) else Inl [ErrorDetail ''min'' MinAboveMax])"

text \<open>
  The type of the annotation against the value supplied.

  Modelled from the spec: how strictly types are matched is part of the configuration of
  \<^verbatim>\<open>BaseComponent\<close>, which is not in the sources at hand. The spec counts a value of the
  wrong type as a violation, so an integer is accepted where a float is declared, no
  number is read out of text or out of a boolean, and a class-typed field takes an
  instance of the class or of a subclass as it is. A supplied pair goes through the
  constructor of \<^verbatim>\<open>MinMax\<close>; a quantity must be in a unit of voltage.
\<close>

fun validate_type :: "ftype \<Rightarrow> pyval \<Rightarrow> reason list + pyval" where
  "validate_type TInt (VInt n) = Inr (VInt n)"
| "validate_type TFloat (VFloat r) = Inr (VFloat r)"
| "validate_type TFloat (VInt n) = Inr (VFloat (of_int n))"
| "validate_type TStr (VStr s) = Inr (VStr s)"
| "validate_type TEnum (VEnum e) = Inr (VEnum e)"
| "validate_type (TModel c) (VInst d fs) =
     (if issubclass d c then Inr (VInst d fs) else Inl [WrongType])"
| "validate_type TMinMax (VMinMax mn mx) =
     (case MinMax_new mn mx of Inl es \<Rightarrow> Inl (map why es) | Inr v \<Rightarrow> Inr v)"
| "validate_type TVoltage (VQuantity m u) =
     (if is_voltage u then Inr (VQuantity m u) else Inl [UnitMismatch])"
| "validate_type _ _ = Inl [WrongType]"

text \<open>The number a bound of \<^verbatim>\<open>Field(gt=..., lt=...)\<close> is compared with.\<close>

fun magnitude_of :: "pyval \<Rightarrow> real option" where
  "magnitude_of (VInt n) = Some (of_int n)"
| "magnitude_of (VFloat r) = Some r"
| "magnitude_of (VQuantity m u) = Some m"
| "magnitude_of _ = None"

fun check :: "constraint \<Rightarrow> real \<Rightarrow> reason list" where
  "check (Gt b) x = (if b < x then [] else [NotGreaterThan b])"
| "check (Ge b) x = (if b \<le> x then [] else [NotGreaterEqual b])"
| "check (Lt b) x = (if x < b then [] else [NotLessThan b])"

definition check_constraints :: "constraint list \<Rightarrow> pyval \<Rightarrow> reason list" where
  "check_constraints cs v =
     (case magnitude_of v of None \<Rightarrow> [] | Some x \<Rightarrow> concat (map (\<lambda>c. check c x) cs))"

text \<open>
  \<^verbatim>\<open>None\<close> passes a nullable field untouched (the bounds of the annotation apply to the
  inner type); any other value is checked against the type, then against the bounds.
\<close>

definition validate_value :: "field \<Rightarrow> pyval \<Rightarrow> reason list + pyval" where
  "validate_value f v =
     (if nullable f \<and> v = VNone then Inr VNone
      else (case validate_type (ftype f) v of
              Inl rs \<Rightarrow> Inl rs
            | Inr w \<Rightarrow> (case check_constraints (constraints f) w of
                          [] \<Rightarrow> Inr w
                        | r # rs \<Rightarrow> Inl (r # rs))))"

subsection \<open>Constructing an instance\<close>

text \<open>
  Modelled from the spec: the configuration of \<^verbatim>\<open>BaseComponent\<close> is not in the sources at
  hand. Following the spec, a field is read under its external label (the alias) or under
  its declared name, the label first, and a key that no field has read is rejected.
\<close>

definition lookup_keys :: "field \<Rightarrow> string list" where
  "lookup_keys f = (case field_alias f of None \<Rightarrow> [fname f] | Some a \<Rightarrow> [a, fname f])"

definition loc_of :: "field \<Rightarrow> string" where
  "loc_of f = (case field_alias f of None \<Rightarrow> fname f | Some a \<Rightarrow> a)"

fun first_present :: "string list \<Rightarrow> kwargs \<Rightarrow> (string \<times> pyval) option" where
  "first_present [] kw = None"
| "first_present (k # ks) kw =
     (case map_of kw k of Some v \<Rightarrow> Some (k, v) | None \<Rightarrow> first_present ks kw)"

text \<open>
  One field: the value supplied is validated; an omitted field takes its declared
  default as it is, and is an error when it has none.
\<close>

definition validate_field :: "field \<Rightarrow> kwargs \<Rightarrow> ValidationError + pyval" where
  "validate_field f kw =
     (case first_present (lookup_keys f) kw of
        None \<Rightarrow> (case default_value f of
                   None \<Rightarrow> Inl [ErrorDetail (loc_of f) Missing]
                 | Some d \<Rightarrow> Inr d)
      | Some (k, v) \<Rightarrow> (case validate_value f v of
                          Inl rs \<Rightarrow> Inl (map (ErrorDetail k) rs)
                        | Inr w \<Rightarrow> Inr w))"

text \<open>
  The loop over the declared fields: every field is validated, whatever happened to the
  ones before it; errors and validated values are collected side by side.
\<close>

fun validate_fields :: "field list \<Rightarrow> kwargs \<Rightarrow> ValidationError \<times> kwargs" where
  "validate_fields [] kw = ([], [])"
| "validate_fields (f # fs) kw =
     (case validate_fields fs kw of
        (es, vs) \<Rightarrow> (case validate_field f kw of
                       Inl e \<Rightarrow> (e @ es, vs)
                     | Inr v \<Rightarrow> (es, (fname f, v) # vs)))"

definition used_keys :: "field list \<Rightarrow> kwargs \<Rightarrow> string list" where
  "used_keys fs kw =
     List.map_filter (\<lambda>f. map_option fst (first_present (lookup_keys f) kw)) fs"

definition extra_keys :: "field list \<Rightarrow> kwargs \<Rightarrow> string list" where
  "extra_keys fs kw = filter (\<lambda>k. k \<notin> set (used_keys fs kw)) (map fst kw)"

text \<open>
  \<^verbatim>\<open>Cls(**kw)\<close>: an instance when no field and no key is in error, otherwise the one
  ValidationError with every entry.
\<close>

definition construct :: "cls \<Rightarrow> kwargs \<Rightarrow> ValidationError + pyval" where
  "construct c kw =
     (case validate_fields (model_fields c) kw of
        (es, vs) \<Rightarrow>
          (case es @ map (\<lambda>k. ErrorDetail k ExtraForbidden) (extra_keys (model_fields c) kw) of
             [] \<Rightarrow> Inr (VInst c vs)
           | e # es' \<Rightarrow> Inl (e # es')))"

subsection \<open>External representation\<close>

datatype dumped = DValue pyval | DDict "(string \<times> dumped) list"

definition is_excluded :: "cls \<Rightarrow> string \<Rightarrow> bool" where
  "is_excluded c k = list_ex (\<lambda>f. fname f = k \<and> exclude f) (model_fields c)"

definition dump_key :: "bool \<Rightarrow> cls \<Rightarrow> string \<Rightarrow> string" where
  "dump_key by_alias c k =
     (if by_alias
      then (case find (\<lambda>f. fname f = k) (model_fields c) of
              None \<Rightarrow> k
            | Some f \<Rightarrow> loc_of f)
      else k)"

text \<open>
  \<^verbatim>\<open>model_dump\<close>: the attributes of an instance as a dictionary, nested instances dumped in
  turn, fields declared with \<^verbatim>\<open>exclude=True\<close> left out.
\<close>

fun model_dump :: "bool \<Rightarrow> pyval \<Rightarrow> dumped" where
  "model_dump by_alias (VInst c fs) =
     DDict (map (\<lambda>kd. (dump_key by_alias c (fst kd), snd kd))
              (filter (\<lambda>kd. \<not> is_excluded c (fst kd))
                 (map (\<lambda>kv. (fst kv, model_dump by_alias (snd kv))) fs)))"
| "model_dump by_alias v = DValue v"

fun dump_keys :: "dumped \<Rightarrow> string list" where
  "dump_keys (DDict kds) = map fst kds"
| "dump_keys (DValue v) = []"

subsection \<open>The example constructors\<close>

definition Area_example :: "ValidationError + pyval" where
  "Area_example = construct Area [(''name'', VStr ''New York'')]"

definition LoadZone_example :: "ValidationError + pyval" where
  "LoadZone_example = construct LoadZone [(''name'', VStr ''ExampleLoadZone'')]"

definition DCBus_example :: "ValidationError + pyval" where
  "DCBus_example =
     (case LoadZone_example of Inl e \<Rightarrow> Inl e | Inr lz \<Rightarrow>
      (case Area_example of Inl e \<Rightarrow> Inl e | Inr a \<Rightarrow>
         construct DCBus
           [(''number'', VInt 1),
            (''name'', VStr ''ExampleBus''),
            (''load_zone'', lz),
            (''area'', a),
            (''base_voltage'', times_unit 20 kV),
            (''bustype'', VEnum PV)]))"

definition ACBus_example :: "ValidationError + pyval" where
  "ACBus_example =
     (case LoadZone_example of Inl e \<Rightarrow> Inl e | Inr lz \<Rightarrow>
      (case Area_example of Inl e \<Rightarrow> Inl e | Inr a \<Rightarrow>
      (case MinMax_new 0.9 1.1 of Inl e \<Rightarrow> Inl e | Inr mm \<Rightarrow>
         construct ACBus
           [(''number'', VInt 1),
            (''name'', VStr ''ExampleBus''),
            (''load_zone'', lz),
            (''area'', a),
            (''base_voltage'', times_unit 13 kV),
            (''voltage_limits'', mm),
            (''bustype'', VEnum PV)])))"

subsection \<open>Vocabulary of the statements\<close>

text \<open>The entries one field contributes to the ValidationError.\<close>

definition field_errors :: "field \<Rightarrow> kwargs \<Rightarrow> ValidationError" where
  "field_errors f kw = (case validate_field f kw of Inl e \<Rightarrow> e | Inr v \<Rightarrow> [])"

text \<open>All entries: those of the fields in declaration order, then the rejected keys.\<close>

definition all_errors :: "cls \<Rightarrow> kwargs \<Rightarrow> ValidationError" where
  "all_errors c kw =
     concat (map (\<lambda>f. field_errors f kw) (model_fields c))
     @ map (\<lambda>k. ErrorDetail k ExtraForbidden) (extra_keys (model_fields c) kw)"

text \<open>The keys a class declares: the name of each field and its alias, if it has one.\<close>

definition declared_keys :: "cls \<Rightarrow> string list" where
  "declared_keys c = concat (map lookup_keys (model_fields c))"

text \<open>Validating an instance again: its attributes are passed back to its class.\<close>

definition revalidate :: "pyval \<Rightarrow> ValidationError + pyval" where
  "revalidate obj = construct (cls_of obj) (attrs obj)"

definition roundtrip :: "ValidationError + pyval \<Rightarrow> ValidationError + pyval" where
  "roundtrip r = (case r of Inl e \<Rightarrow> Inl e | Inr obj \<Rightarrow> revalidate obj)"

text \<open>The values that stand for zero or empty, one per kind of value.\<close>

definition zero_like :: "pyval list" where
  "zero_like = [VBool False, VInt 0, VFloat 0, VStr '''']"

text \<open>The fields of the bus classes declared with \<^verbatim>\<open>| None\<close> and default \<^verbatim>\<open>None\<close>.\<close>

definition optional_fields :: "cls \<Rightarrow> string list" where
  "optional_fields c =
     [''bustype'', ''area'', ''load_zone'', ''voltage_limits'', ''base_voltage'', ''magnitude'']
     @ (if c = ACBus then [''angle''] else [])"

text \<open>Dropping a keyword argument from a call.\<close>

definition omit :: "string \<Rightarrow> kwargs \<Rightarrow> kwargs" where
  "omit k kw = filter (\<lambda>kv. fst kv \<noteq> k) kw"

text \<open>A bus as \<^verbatim>\<open>Bus(name="b", number=1)\<close> builds it, for concrete calls of \<^verbatim>\<open>Arc\<close>.\<close>

definition bus_b :: pyval where
  "bus_b = VInst Bus
     [(''name'', VStr ''b''), (''number'', VInt 1), (''bustype'', VNone), (''area'', VNone),
      (''load_zone'', VNone), (''voltage_limits'', VNone), (''base_voltage'', VNone),
      (''magnitude'', VNone)]"

text \<open>The arc \<^verbatim>\<open>Arc(name="x", from_to=b, to_from=b)\<close> for that bus.\<close>

definition arc_x :: pyval where
  "arc_x = VInst Arc [(''name'', VStr ''x''), (''from_to'', bus_b), (''to_from'', bus_b)]"

section \<open>Properties of construction\<close>

subsection \<open>The error list and the result\<close>

lemma validate_type_Inl_nonempty: "validate_type t v = Inl rs \<Longrightarrow> rs \<noteq> []"
  by (cases "(t, v)" rule: validate_type.cases) (auto simp: MinMax_new_def split: if_splits)

lemma validate_value_Inl_nonempty: "validate_value f v = Inl rs \<Longrightarrow> rs \<noteq> []"
  by (auto simp: validate_value_def split: if_splits sum.splits list.splits
        dest: validate_type_Inl_nonempty)

lemma validate_field_Inl_nonempty: "validate_field f kw = Inl e \<Longrightarrow> e \<noteq> []"
  by (auto simp: validate_field_def split: option.splits sum.splits prod.splits
        dest: validate_value_Inl_nonempty)

lemma field_errors_Nil_iff: "field_errors f kw = [] \<longleftrightarrow> \<not> isl (validate_field f kw)"
  by (cases "validate_field f kw") (auto simp: field_errors_def dest: validate_field_Inl_nonempty)

lemma fst_validate_fields:
  "fst (validate_fields fs kw) = concat (map (\<lambda>f. field_errors f kw) fs)"
  by (induction fs) (auto simp: field_errors_def split: prod.splits sum.splits)

lemma construct_eq:
  "construct c kw =
     (if all_errors c kw = [] then Inr (VInst c (snd (validate_fields (model_fields c) kw)))
      else Inl (all_errors c kw))"
proof -
  obtain es vs where ev: "validate_fields (model_fields c) kw = (es, vs)"
    by (cases "validate_fields (model_fields c) kw")
  have "es = concat (map (\<lambda>f. field_errors f kw) (model_fields c))"
    using fst_validate_fields [of "model_fields c" kw] ev by simp
  then have c: "construct c kw =
      (case all_errors c kw of [] \<Rightarrow> Inr (VInst c vs) | e # es' \<Rightarrow> Inl (e # es'))"
    by (simp only: construct_def ev all_errors_def prod.case)
  show ?thesis
    by (cases "all_errors c kw") (simp_all add: c ev)
qed

lemma all_errors_Nil_iff:
  "all_errors c kw = [] \<longleftrightarrow>
     list_all (\<lambda>f. \<not> isl (validate_field f kw)) (model_fields c)
     \<and> extra_keys (model_fields c) kw = []"
  by (auto simp: all_errors_def list_all_iff field_errors_Nil_iff)

lemma construct_ok_iff:
  "\<not> isl (construct c kw) \<longleftrightarrow>
     list_all (\<lambda>f. \<not> isl (validate_field f kw)) (model_fields c)
     \<and> extra_keys (model_fields c) kw = []"
  by (simp add: construct_eq all_errors_Nil_iff [symmetric])

lemma first_present_key:
  "map_option fst (first_present ks kw) = find (\<lambda>k. k \<in> fst ` set kw) ks"
proof (induction ks)
  case Nil
  show ?case by simp
next
  case (Cons a ks)
  show ?case
  proof (cases "map_of kw a")
    case None
    then have "a \<notin> fst ` set kw" by (simp add: map_of_eq_None_iff)
    with None Cons show ?thesis by simp
  next
    case (Some v)
    then have "(a, v) \<in> set kw" by (rule map_of_SomeD)
    then have "a \<in> fst ` set kw" by force
    with Some show ?thesis by simp
  qed
qed

lemma first_present_cons_other:
  "k \<notin> set ks \<Longrightarrow> first_present ks ((k, v) # kw) = first_present ks kw"
  by (induction ks) (auto split: option.splits)

lemma validate_field_cons_other:
  "k \<notin> set (lookup_keys f) \<Longrightarrow> validate_field f ((k, v) # kw) = validate_field f kw"
  by (simp add: validate_field_def first_present_cons_other)

lemma validate_field_cons_own:
  "lookup_keys f = [k] \<Longrightarrow>
   validate_field f ((k, v) # kw) =
     (case validate_value f v of Inl rs \<Rightarrow> Inl (map (ErrorDetail k) rs) | Inr w \<Rightarrow> Inr w)"
  by (simp add: validate_field_def)

lemma construct_errors:
  assumes "f \<in> set (model_fields c)" and "validate_field f kw = Inl e"
  shows "\<exists>es. construct c kw = Inl es \<and> set e \<subseteq> set es"
proof -
  from assms have "set e \<subseteq> set (all_errors c kw)"
    by (auto simp: all_errors_def field_errors_def intro!: bexI [of _ f])
  moreover from assms(2) have "e \<noteq> []"
    by (rule validate_field_Inl_nonempty)
  ultimately show ?thesis
    by (auto simp: construct_eq)
qed

lemma Bus_fields_eq:
  "Bus_fields =
     [plain ''name'' TStr [] False None,
      plain ''number'' TInt [Gt 0] False None,
      plain ''bustype'' TEnum [] True (Some VNone),
      plain ''area'' (TModel Area) [] True (Some VNone),
      plain ''load_zone'' (TModel LoadZone) [] True (Some VNone),
      plain ''voltage_limits'' TMinMax [] True (Some VNone),
      plain ''base_voltage'' TVoltage [Gt 0] True (Some VNone),
      plain ''magnitude'' TFloat [Ge 0] True (Some VNone)]"
  by (simp add: Bus_fields_def Topology_fields_def BaseComponent_fields_def inherit_def
        plain_def PositiveInt_def NonNegativeFloat_def)

lemma DCBus_fields_eq: "DCBus_fields = Bus_fields"
  by (simp add: DCBus_fields_def inherit_def)

lemma ACBus_fields_eq:
  "ACBus_fields = Bus_fields @ [plain ''angle'' TFloat [Gt (- 1.571), Lt 1.571] True (Some VNone)]"
  by (simp add: ACBus_fields_def inherit_def Bus_fields_eq plain_def)

lemma Area_fields_eq:
  "Area_fields =
     [plain ''name'' TStr [] False None,
      plain ''peak_active_power'' TFloat [Ge 0] False (Some (VFloat 0)),
      plain ''peak_reactive_power'' TFloat [Ge 0] False (Some (VFloat 0)),
      plain ''load_response'' TFloat [] False (Some (VFloat 0))]"
  by (simp add: Area_fields_def AggregationTopology_fields_def Topology_fields_def
        BaseComponent_fields_def inherit_def plain_def NonNegativeFloat_def)

lemma LoadZone_fields_eq:
  "LoadZone_fields =
     [plain ''name'' TStr [] False None,
      plain ''peak_active_power'' TFloat [Ge 0] False (Some (VFloat 0)),
      plain ''peak_reactive_power'' TFloat [Ge 0] False (Some (VFloat 0))]"
  by (simp add: LoadZone_fields_def AggregationTopology_fields_def Topology_fields_def
        BaseComponent_fields_def inherit_def plain_def NonNegativeFloat_def)

lemma Arc_fields_eq:
  "Arc_fields =
     [(plain ''name'' TStr [] False (Some (VStr '''')))\<lparr>frozen := True, exclude := True\<rparr>,
      (plain ''from_to'' (TModel Bus) [] False None)\<lparr>field_alias := Some ''from''\<rparr>,
      (plain ''to_from'' (TModel Bus) [] False None)\<lparr>field_alias := Some ''to''\<rparr>]"
  by (simp add: Arc_fields_def Topology_fields_def BaseComponent_fields_def inherit_def plain_def)

lemma Topology_fields_eq: "Topology_fields = [plain ''name'' TStr [] False None]"
  by (simp add: Topology_fields_def BaseComponent_fields_def inherit_def)

lemma AggregationTopology_fields_eq:
  "AggregationTopology_fields = [plain ''name'' TStr [] False None]"
  by (simp add: AggregationTopology_fields_def Topology_fields_eq inherit_def)

lemmas fields_eq = Bus_fields_eq DCBus_fields_eq ACBus_fields_eq Area_fields_eq
  LoadZone_fields_eq Arc_fields_eq Topology_fields_eq AggregationTopology_fields_eq

lemmas eval_simps = construct_def validate_field_def validate_value_def lookup_keys_def
  loc_of_def check_constraints_def extra_keys_def used_keys_def List.map_filter_def
  plain_def MinMax_new_def issubclass_def times_unit_def

subsection \<open>Changing one keyword argument of a valid call\<close>

lemma used_keys_Cons:
  "used_keys (g # fs) kw =
     (case map_option fst (first_present (lookup_keys g) kw) of None \<Rightarrow> [] | Some k \<Rightarrow> [k])
     @ used_keys fs kw"
  by (simp add: used_keys_def List.map_filter_def split: option.splits)

lemma used_keys_noalias:
  "list_all (\<lambda>g. field_alias g = None) fs \<Longrightarrow>
     set (used_keys fs kw) = fname ` set fs \<inter> fst ` set kw"
proof (induction fs)
  case Nil
  show ?case by (simp add: used_keys_def List.map_filter_def)
next
  case (Cons g fs)
  then have lk: "lookup_keys g = [fname g]"
    by (simp add: lookup_keys_def)
  have "map_option fst (first_present (lookup_keys g) kw)
          = (if fname g \<in> fst ` set kw then Some (fname g) else None)"
    unfolding lk first_present_key by simp
  with Cons show ?case
    by (auto simp: used_keys_Cons)
qed

lemma extra_keys_noalias:
  assumes "list_all (\<lambda>g. field_alias g = None) fs"
  shows "extra_keys fs kw = filter (\<lambda>k. k \<notin> fname ` set fs) (map fst kw)"
  unfolding extra_keys_def used_keys_noalias [OF assms]
  by (rule filter_cong) auto

lemma noalias_classes:
  "c \<noteq> Arc \<Longrightarrow>
     list_all (\<lambda>g. field_alias g = None) (model_fields c) \<and> distinct (map fname (model_fields c))"
  by (cases c) (simp_all add: fields_eq plain_def)

lemma construct_override:
  assumes c: "c \<noteq> Arc"
    and mem: "f \<in> set (model_fields c)"
    and ok0: "\<not> isl (construct c kw)"
  shows "\<not> isl (construct c ((fname f, v) # kw)) \<longleftrightarrow> \<not> isl (validate_value f v)"
proof -
  from noalias_classes [OF c]
  have na: "list_all (\<lambda>g. field_alias g = None) (model_fields c)"
    and di: "distinct (map fname (model_fields c))"
    by simp_all
  from na mem have own: "lookup_keys f = [fname f]"
    by (simp add: list_all_iff lookup_keys_def)
  have ex: "extra_keys (model_fields c) ((fname f, v) # kw) = []"
    using ok0 mem by (simp add: construct_ok_iff extra_keys_noalias [OF na])
  have others: "\<not> isl (validate_field g ((fname f, v) # kw))"
    if g: "g \<in> set (model_fields c)" and ne: "g \<noteq> f" for g
  proof -
    from di g mem ne have "fname g \<noteq> fname f"
      by (auto simp: distinct_map dest: inj_onD)
    with na g have nk: "fname f \<notin> set (lookup_keys g)"
      by (auto simp: list_all_iff lookup_keys_def)
    from ok0 g have "\<not> isl (validate_field g kw)"
      by (auto simp: construct_ok_iff list_all_iff)
    with nk show ?thesis
      by (simp add: validate_field_cons_other)
  qed
  have self: "isl (validate_field f ((fname f, v) # kw)) = isl (validate_value f v)"
    by (simp add: validate_field_cons_own [OF own] split: sum.splits)
  show ?thesis
    using others mem self
    by (auto simp: construct_ok_iff ex list_all_iff)
qed

lemma construct_override_fails:
  assumes c: "c \<noteq> Arc"
    and mem: "f \<in> set (model_fields c)"
    and bad: "validate_value f v = Inl rs"
  shows "\<exists>es. construct c ((fname f, v) # kw) = Inl es \<and> ErrorDetail (fname f) ` set rs \<subseteq> set es"
proof -
  from noalias_classes [OF c] mem have own: "lookup_keys f = [fname f]"
    by (simp add: list_all_iff lookup_keys_def)
  have "validate_field f ((fname f, v) # kw) = Inl (map (ErrorDetail (fname f)) rs)"
    by (simp add: validate_field_cons_own [OF own] bad)
  from construct_errors [OF mem this] show ?thesis
    by simp
qed

lemma bus_family_fields:
  assumes "c \<in> {Bus, DCBus, ACBus}"
  shows "c \<noteq> Arc" and "set Bus_fields \<subseteq> set (model_fields c)"
  using assms by (auto simp: DCBus_fields_eq ACBus_fields_eq)

lemma validate_number:
  "validate_value (plain ''number'' TInt [Gt 0] False None) (VInt n) =
     (if 0 < n then Inr (VInt n) else Inl [NotGreaterThan 0])"
  by (simp add: validate_value_def plain_def check_constraints_def)

section \<open>The claims\<close>

text \<open>
  C5. For a class of the bus family and a call that succeeds, the same call with
  \<open>number = n\<close> succeeds when \<open>n \<ge> 1\<close>, and fails with a ValidationError that has an
  entry for \<open>number\<close> when \<open>n \<le> 0\<close>.
\<close>

theorem Bus_number_positive:
  assumes fam: "c \<in> {Bus, DCBus, ACBus}"
    and ok: "\<not> isl (construct c kw)"
  shows "(1 \<le> n \<longrightarrow> \<not> isl (construct c ((''number'', VInt n) # kw)))
       \<and> (n \<le> 0 \<longrightarrow> (\<exists>es. construct c ((''number'', VInt n) # kw) = Inl es
                        \<and> ErrorDetail ''number'' (NotGreaterThan 0) \<in> set es))"
proof -
  let ?f = "plain ''number'' TInt [Gt 0] False None"
  have nm: "fname ?f = ''number''" by (simp add: plain_def)
  from bus_family_fields [OF fam] have c: "c \<noteq> Arc" and mem: "?f \<in> set (model_fields c)"
    by (auto simp: Bus_fields_eq)
  from construct_override [OF c mem ok, of "VInt n"]
  have pos: "1 \<le> n \<longrightarrow> \<not> isl (construct c ((''number'', VInt n) # kw))"
    by (simp add: nm validate_number)
  have neg: "\<exists>es. construct c ((''number'', VInt n) # kw) = Inl es
                \<and> ErrorDetail ''number'' (NotGreaterThan 0) \<in> set es" if "n \<le> 0"
  proof -
    from that have "validate_value ?f (VInt n) = Inl [NotGreaterThan 0]"
      by (simp add: validate_number)
    from construct_override_fails [OF c mem this, of kw] show ?thesis
      by (simp add: nm)
  qed
  from pos neg show ?thesis by blast
qed

theorem Bus_number_positive_witness:
  "\<not> isl (construct DCBus [(''number'', VInt 7), (''name'', VStr ''b''), (''number'', VInt 1)])
   \<and> isl (construct DCBus [(''number'', VInt 0), (''name'', VStr ''b''), (''number'', VInt 1)])"
proof -
  have ok: "\<not> isl (construct DCBus [(''name'', VStr ''b''), (''number'', VInt 1)])"
    by (simp add: fields_eq eval_simps)
  have fam: "DCBus \<in> {Bus, DCBus, ACBus}" by simp
  from Bus_number_positive [OF fam ok, of 7] Bus_number_positive [OF fam ok, of 0]
  show ?thesis by auto
qed

lemma validate_voltage_limits:
  "validate_value (plain ''voltage_limits'' TMinMax [] True (Some VNone)) (VMinMax mn mx) =
     (if mn \<le> mx then Inr (VMinMax mn mx) else Inl [MinAboveMax])"
  by (simp add: validate_value_def plain_def check_constraints_def MinMax_new_def)

text \<open>
  C2. For a class of the bus family and a call that succeeds, the same call with
  \<open>voltage_limits\<close> set to a pair succeeds exactly when min \<open>\<le>\<close> max; the constructor of the
  pair itself fails exactly when max \<open><\<close> min, and the failing call of the bus has an entry
  for \<open>voltage_limits\<close>.
\<close>

theorem voltage_limits_min_le_max:
  assumes fam: "c \<in> {Bus, DCBus, ACBus}"
    and ok: "\<not> isl (construct c kw)"
  shows "(\<not> isl (construct c ((''voltage_limits'', VMinMax mn mx) # kw)) \<longleftrightarrow> mn \<le> mx)
       \<and> (isl (MinMax_new mn mx) \<longleftrightarrow> mx < mn)
       \<and> (mx < mn \<longrightarrow> (\<exists>es. construct c ((''voltage_limits'', VMinMax mn mx) # kw) = Inl es
                        \<and> ErrorDetail ''voltage_limits'' MinAboveMax \<in> set es))"
proof -
  let ?f = "plain ''voltage_limits'' TMinMax [] True (Some VNone)"
  have nm: "fname ?f = ''voltage_limits''" by (simp add: plain_def)
  from bus_family_fields [OF fam] have c: "c \<noteq> Arc" and mem: "?f \<in> set (model_fields c)"
    by (auto simp: Bus_fields_eq)
  from construct_override [OF c mem ok, of "VMinMax mn mx"]
  have iff: "\<not> isl (construct c ((''voltage_limits'', VMinMax mn mx) # kw)) \<longleftrightarrow> mn \<le> mx"
    by (simp add: nm validate_voltage_limits)
  have own: "isl (MinMax_new mn mx) \<longleftrightarrow> mx < mn"
    by (auto simp: MinMax_new_def)
  have bad: "\<exists>es. construct c ((''voltage_limits'', VMinMax mn mx) # kw) = Inl es
                \<and> ErrorDetail ''voltage_limits'' MinAboveMax \<in> set es" if "mx < mn"
  proof -
    from that have "validate_value ?f (VMinMax mn mx) = Inl [MinAboveMax]"
      by (simp add: validate_voltage_limits)
    from construct_override_fails [OF c mem this, of kw] show ?thesis
      by (simp add: nm)
  qed
  from iff own bad show ?thesis by blast
qed

theorem voltage_limits_min_le_max_witness:
  "\<not> isl (construct ACBus
       [(''voltage_limits'', VMinMax 0.9 1.1), (''name'', VStr ''b''), (''number'', VInt 1)])
   \<and> isl (construct ACBus
       [(''voltage_limits'', VMinMax 1.1 0.9), (''name'', VStr ''b''), (''number'', VInt 1)])
   \<and> isl (MinMax_new 1.1 0.9)"
proof -
  have ok: "\<not> isl (construct ACBus [(''name'', VStr ''b''), (''number'', VInt 1)])"
    by (simp add: fields_eq eval_simps)
  have fam: "ACBus \<in> {Bus, DCBus, ACBus}" by simp
  from voltage_limits_min_le_max [OF fam ok, of "0.9" "1.1"]
    voltage_limits_min_le_max [OF fam ok, of "1.1" "0.9"]
  show ?thesis by simp
qed

lemma validate_angle:
  "validate_value (plain ''angle'' TFloat [Gt (- 1.571), Lt 1.571] True (Some VNone)) (VFloat a) =
     (if - 1.571 < a \<and> a < 1.571 then Inr (VFloat a)
      else if a < 1.571 then Inl [NotGreaterThan (- 1.571)]
      else Inl [NotLessThan 1.571])"
  by (simp add: validate_value_def plain_def check_constraints_def)

text \<open>
  C3. For a call of \<open>ACBus\<close> that succeeds, the same call with \<open>angle = a\<close> succeeds exactly
  when \<open>-1.571 < a < 1.571\<close>; both bounds themselves fail.
\<close>

theorem ACBus_angle_open_interval:
  assumes ok: "\<not> isl (construct ACBus kw)"
  shows "(\<not> isl (construct ACBus ((''angle'', VFloat a) # kw)) \<longleftrightarrow> - 1.571 < a \<and> a < 1.571)
       \<and> isl (construct ACBus ((''angle'', VFloat (- 1.571)) # kw))
       \<and> isl (construct ACBus ((''angle'', VFloat 1.571) # kw))"
proof -
  let ?f = "plain ''angle'' TFloat [Gt (- 1.571), Lt 1.571] True (Some VNone)"
  have nm: "fname ?f = ''angle''" by (simp add: plain_def)
  have c: "ACBus \<noteq> Arc" and mem: "?f \<in> set (model_fields ACBus)"
    by (simp_all add: ACBus_fields_eq)
  have iff: "\<not> isl (construct ACBus ((''angle'', VFloat x) # kw)) \<longleftrightarrow> - 1.571 < x \<and> x < 1.571"
    for x
    using construct_override [OF c mem ok, of "VFloat x"]
    unfolding nm validate_angle by (simp split: if_splits)
  from iff [of a] iff [of "- 1.571"] iff [of "1.571"] show ?thesis
    by simp
qed

theorem ACBus_angle_open_interval_witness:
  "\<not> isl (construct ACBus [(''angle'', VFloat 1.57), (''name'', VStr ''b''), (''number'', VInt 1)])
   \<and> isl (construct ACBus [(''angle'', VFloat 1.571), (''name'', VStr ''b''), (''number'', VInt 1)])
   \<and> isl (construct ACBus [(''angle'', VFloat (- 1.571)), (''name'', VStr ''b''), (''number'', VInt 1)])"
proof -
  have ok: "\<not> isl (construct ACBus [(''name'', VStr ''b''), (''number'', VInt 1)])"
    by (simp add: fields_eq eval_simps)
  from ACBus_angle_open_interval [OF ok, of "1.57"] show ?thesis
    by simp
qed

lemma validate_base_voltage:
  "validate_value (plain ''base_voltage'' TVoltage [Gt 0] True (Some VNone)) (VQuantity m u) =
     (if \<not> is_voltage u then Inl [UnitMismatch]
      else if 0 < m then Inr (VQuantity m u)
      else Inl [NotGreaterThan 0])"
  by (simp add: validate_value_def plain_def check_constraints_def)

text \<open>
  C4. For a class of the bus family and a call that succeeds, the same call with
  \<open>base_voltage\<close> set to a quantity succeeds exactly when the magnitude is positive and the
  unit is a unit of voltage; another unit and a magnitude \<open>\<le> 0\<close> each fail with an entry
  for \<open>base_voltage\<close>, and nothing is converted.
\<close>

theorem base_voltage_positive_voltage:
  assumes fam: "c \<in> {Bus, DCBus, ACBus}"
    and ok: "\<not> isl (construct c kw)"
  shows "(\<not> isl (construct c ((''base_voltage'', VQuantity m u) # kw)) \<longleftrightarrow> 0 < m \<and> is_voltage u)
       \<and> (\<not> is_voltage u \<longrightarrow>
            (\<exists>es. construct c ((''base_voltage'', VQuantity m u) # kw) = Inl es
                 \<and> ErrorDetail ''base_voltage'' UnitMismatch \<in> set es))
       \<and> (is_voltage u \<and> m \<le> 0 \<longrightarrow>
            (\<exists>es. construct c ((''base_voltage'', VQuantity m u) # kw) = Inl es
                 \<and> ErrorDetail ''base_voltage'' (NotGreaterThan 0) \<in> set es))"
proof -
  let ?f = "plain ''base_voltage'' TVoltage [Gt 0] True (Some VNone)"
  have nm: "fname ?f = ''base_voltage''" by (simp add: plain_def)
  from bus_family_fields [OF fam] have c: "c \<noteq> Arc" and mem: "?f \<in> set (model_fields c)"
    by (auto simp: Bus_fields_eq)
  from construct_override [OF c mem ok, of "VQuantity m u"]
  have iff: "\<not> isl (construct c ((''base_voltage'', VQuantity m u) # kw)) \<longleftrightarrow> 0 < m \<and> is_voltage u"
    by (simp add: nm validate_base_voltage)
  have unit: "\<exists>es. construct c ((''base_voltage'', VQuantity m u) # kw) = Inl es
                 \<and> ErrorDetail ''base_voltage'' UnitMismatch \<in> set es" if "\<not> is_voltage u"
  proof -
    from that have "validate_value ?f (VQuantity m u) = Inl [UnitMismatch]"
      by (simp add: validate_base_voltage)
    from construct_override_fails [OF c mem this, of kw] show ?thesis
      by (simp add: nm)
  qed
  have sign: "\<exists>es. construct c ((''base_voltage'', VQuantity m u) # kw) = Inl es
                 \<and> ErrorDetail ''base_voltage'' (NotGreaterThan 0) \<in> set es"
    if "is_voltage u" "m \<le> 0"
  proof -
    from that have "validate_value ?f (VQuantity m u) = Inl [NotGreaterThan 0]"
      by (simp add: validate_base_voltage)
    from construct_override_fails [OF c mem this, of kw] show ?thesis
      by (simp add: nm)
  qed
  from iff unit sign show ?thesis by blast
qed

theorem base_voltage_positive_voltage_witness:
  "\<not> isl (construct DCBus
       [(''base_voltage'', VQuantity 20 kV), (''name'', VStr ''b''), (''number'', VInt 1)])
   \<and> isl (construct DCBus
       [(''base_voltage'', VQuantity 20 MW), (''name'', VStr ''b''), (''number'', VInt 1)])
   \<and> isl (construct DCBus
       [(''base_voltage'', VQuantity 0 kV), (''name'', VStr ''b''), (''number'', VInt 1)])"
proof -
  have ok: "\<not> isl (construct DCBus [(''name'', VStr ''b''), (''number'', VInt 1)])"
    by (simp add: fields_eq eval_simps)
  have fam: "DCBus \<in> {Bus, DCBus, ACBus}" by simp
  from base_voltage_positive_voltage [OF fam ok, of 20 kV]
    base_voltage_positive_voltage [OF fam ok, of 20 MW]
    base_voltage_positive_voltage [OF fam ok, of 0 kV]
  show ?thesis by simp
qed

lemma validate_peak_power:
  "validate_value (plain k TFloat [Ge 0] False (Some (VFloat 0))) (VFloat p) =
     (if 0 \<le> p then Inr (VFloat p) else Inl [NotGreaterEqual 0])"
  by (simp add: validate_value_def plain_def check_constraints_def)

lemma validate_load_response:
  "validate_value (plain ''load_response'' TFloat [] False (Some (VFloat 0))) (VFloat r) =
     Inr (VFloat r)"
  by (simp add: validate_value_def plain_def check_constraints_def)

text \<open>
  C6. For \<open>Area\<close> and \<open>LoadZone\<close> and a call that succeeds, the same call with
  \<open>peak_active_power = p\<close> (or \<open>peak_reactive_power = p\<close>) succeeds when \<open>p \<ge> 0\<close> and fails
  with an entry naming that field when \<open>p < 0\<close>; \<open>load_response\<close> of \<open>Area\<close> takes a real of
  either sign.
\<close>

theorem peak_power_non_negative:
  assumes cls: "c \<in> {Area, LoadZone}"
    and key: "k \<in> {''peak_active_power'', ''peak_reactive_power''}"
    and ok: "\<not> isl (construct c kw)"
  shows "(0 \<le> p \<longrightarrow> \<not> isl (construct c ((k, VFloat p) # kw)))
       \<and> (p < 0 \<longrightarrow> (\<exists>es. construct c ((k, VFloat p) # kw) = Inl es
                       \<and> ErrorDetail k (NotGreaterEqual 0) \<in> set es))
       \<and> (c = Area \<longrightarrow> \<not> isl (construct c ((''load_response'', VFloat r) # kw)))"
proof -
  let ?f = "plain k TFloat [Ge 0] False (Some (VFloat 0))"
  have nm: "fname ?f = k" by (simp add: plain_def)
  from cls key have c: "c \<noteq> Arc" and mem: "?f \<in> set (model_fields c)"
    by (auto simp: Area_fields_eq LoadZone_fields_eq)
  from construct_override [OF c mem ok, of "VFloat p"]
  have pos: "0 \<le> p \<longrightarrow> \<not> isl (construct c ((k, VFloat p) # kw))"
    by (simp add: nm validate_peak_power)
  have neg: "\<exists>es. construct c ((k, VFloat p) # kw) = Inl es
                \<and> ErrorDetail k (NotGreaterEqual 0) \<in> set es" if "p < 0"
  proof -
    from that have "validate_value ?f (VFloat p) = Inl [NotGreaterEqual 0]"
      by (simp add: validate_peak_power)
    from construct_override_fails [OF c mem this, of kw] show ?thesis
      by (simp add: nm)
  qed
  have lr: "\<not> isl (construct c ((''load_response'', VFloat r) # kw))" if a: "c = Area"
  proof -
    let ?g = "plain ''load_response'' TFloat [] False (Some (VFloat 0))"
    have gn: "fname ?g = ''load_response''" by (simp add: plain_def)
    from a have gm: "?g \<in> set (model_fields c)"
      by (simp add: Area_fields_eq)
    from construct_override [OF c gm ok, of "VFloat r"] show ?thesis
      by (simp add: gn validate_load_response)
  qed
  from pos neg lr show ?thesis by blast
qed

theorem peak_power_non_negative_witness:
  "\<not> isl (construct Area [(''peak_active_power'', VFloat 2.5), (''name'', VStr ''a'')])
   \<and> isl (construct Area [(''peak_active_power'', VFloat (- 2.5)), (''name'', VStr ''a'')])
   \<and> \<not> isl (construct Area [(''load_response'', VFloat (- 3)), (''name'', VStr ''a'')])"
proof -
  have ok: "\<not> isl (construct Area [(''name'', VStr ''a'')])"
    by (simp add: fields_eq eval_simps)
  have cls: "Area \<in> {Area, LoadZone}" by simp
  have key: "''peak_active_power'' \<in> {''peak_active_power'', ''peak_reactive_power''}" by simp
  from peak_power_non_negative [OF cls key ok, of "2.5" "- 3"]
    peak_power_non_negative [OF cls key ok, of "- 2.5" "- 3"]
  show ?thesis by auto
qed

text \<open>
  C10. The classes documented as abstract are built like any other: \<open>Bus(name=s, number=n)\<close>
  with \<open>n\<close> positive and every optional field omitted yields an instance of \<open>Bus\<close>, and
  \<open>Topology(name=s)\<close> and \<open>AggregationTopology(name=s)\<close> yield instances of these classes.
\<close>

theorem abstract_classes_constructible:
  assumes "0 < n"
  shows "construct Bus [(''name'', VStr s), (''number'', VInt n)] =
           Inr (VInst Bus
             [(''name'', VStr s), (''number'', VInt n), (''bustype'', VNone), (''area'', VNone),
              (''load_zone'', VNone), (''voltage_limits'', VNone), (''base_voltage'', VNone),
              (''magnitude'', VNone)])
       \<and> construct Topology [(''name'', VStr s)] = Inr (VInst Topology [(''name'', VStr s)])
       \<and> construct AggregationTopology [(''name'', VStr s)] =
           Inr (VInst AggregationTopology [(''name'', VStr s)])"
  using assms by (simp add: fields_eq eval_simps)

theorem abstract_classes_constructible_witness:
  "construct Bus [(''name'', VStr ''b''), (''number'', VInt 1)] = Inr bus_b"
proof -
  have "(0::int) < 1" by simp
  from abstract_classes_constructible [OF this, of "''b''"] show ?thesis
    by (simp add: bus_b_def)
qed

text \<open>
  C7. Each of \<open>Area.example()\<close>, \<open>LoadZone.example()\<close>, \<open>DCBus.example()\<close> and
  \<open>ACBus.example()\<close> returns an instance, and validating that instance again returns it
  unchanged, with no error.
\<close>

theorem examples_valid:
  "\<not> isl Area_example \<and> roundtrip Area_example = Area_example
   \<and> \<not> isl LoadZone_example \<and> roundtrip LoadZone_example = LoadZone_example
   \<and> \<not> isl DCBus_example \<and> roundtrip DCBus_example = DCBus_example
   \<and> \<not> isl ACBus_example \<and> roundtrip ACBus_example = ACBus_example"
  by (simp add: Area_example_def LoadZone_example_def DCBus_example_def ACBus_example_def
        roundtrip_def revalidate_def fields_eq eval_simps)

lemma map_of_omit: "map_of (omit k kw) k' = (if k' = k then None else map_of kw k')"
  by (induction kw) (auto simp: omit_def)

lemma first_present_omit_other:
  "k \<notin> set ks \<Longrightarrow> first_present ks (omit k kw) = first_present ks kw"
  by (induction ks) (auto simp: map_of_omit split: option.splits)

lemma validate_field_omit_other:
  "k \<notin> set (lookup_keys f) \<Longrightarrow> validate_field f (omit k kw) = validate_field f kw"
  by (simp add: validate_field_def first_present_omit_other)

lemma validate_field_omit_own:
  "lookup_keys f = [k] \<Longrightarrow> default_value f = Some d \<Longrightarrow> validate_field f (omit k kw) = Inr d"
  by (simp add: validate_field_def map_of_omit)

lemma validate_fields_value:
  assumes "f \<in> set fs" and "distinct (map fname fs)" and "validate_field f kw = Inr v"
  shows "map_of (snd (validate_fields fs kw)) (fname f) = Some v"
  using assms
proof (induction fs)
  case Nil
  then show ?case by simp
next
  case (Cons g fs)
  show ?case
  proof (cases "g = f")
    case True
    with Cons.prems show ?thesis
      by (simp split: prod.splits)
  next
    case False
    with Cons.prems have "f \<in> set fs" and "fname g \<noteq> fname f"
      by auto
    with Cons show ?thesis
      by (auto split: prod.splits sum.splits)
  qed
qed

lemma construct_omit:
  assumes c: "c \<noteq> Arc"
    and mem: "f \<in> set (model_fields c)"
    and dv: "default_value f = Some d"
    and ok0: "\<not> isl (construct c kw)"
  shows "\<exists>obj. construct c (omit (fname f) kw) = Inr obj \<and> getattr obj (fname f) = Some d"
proof -
  let ?kw = "omit (fname f) kw"
  from noalias_classes [OF c]
  have na: "list_all (\<lambda>g. field_alias g = None) (model_fields c)"
    and di: "distinct (map fname (model_fields c))"
    by simp_all
  from na mem have own: "lookup_keys f = [fname f]"
    by (simp add: list_all_iff lookup_keys_def)
  have self: "validate_field f ?kw = Inr d"
    using own dv by (rule validate_field_omit_own)
  have ex: "extra_keys (model_fields c) ?kw = []"
    using ok0 by (auto simp: construct_ok_iff extra_keys_noalias [OF na] omit_def filter_empty_conv)
  have others: "\<not> isl (validate_field g ?kw)" if g: "g \<in> set (model_fields c)" for g
  proof (cases "g = f")
    case True
    with self show ?thesis by simp
  next
    case False
    with di g mem have "fname g \<noteq> fname f"
      by (auto simp: distinct_map dest: inj_onD)
    with na g have nk: "fname f \<notin> set (lookup_keys g)"
      by (auto simp: list_all_iff lookup_keys_def)
    from ok0 g have "\<not> isl (validate_field g kw)"
      by (auto simp: construct_ok_iff list_all_iff)
    with nk show ?thesis
      by (simp add: validate_field_omit_other)
  qed
  then have "all_errors c ?kw = []"
    by (simp add: all_errors_Nil_iff ex list_all_iff)
  then have "construct c ?kw = Inr (VInst c (snd (validate_fields (model_fields c) ?kw)))"
    by (simp add: construct_eq)
  moreover have "map_of (snd (validate_fields (model_fields c) ?kw)) (fname f) = Some d"
    using mem di self by (rule validate_fields_value)
  ultimately show ?thesis
    by (simp add: getattr_def)
qed

lemma optional_field_declared:
  assumes "c \<in> {Bus, DCBus, ACBus}" and "k \<in> set (optional_fields c)"
  shows "\<exists>f \<in> set (model_fields c). fname f = k \<and> default_value f = Some VNone"
  using assms by (auto simp: optional_fields_def fields_eq plain_def)

text \<open>
  C8. For a class of the bus family, an optional field (\<open>bustype\<close>, \<open>area\<close>, \<open>load_zone\<close>,
  \<open>voltage_limits\<close>, \<open>base_voltage\<close>, \<open>magnitude\<close>, and \<open>angle\<close> for \<open>ACBus\<close>) and a call that
  succeeds, the same call without that field succeeds as well, and the field of the
  instance reads \<open>None\<close>, which is none of the values standing for zero.
\<close>

theorem optional_fields_absent:
  assumes fam: "c \<in> {Bus, DCBus, ACBus}"
    and opt: "k \<in> set (optional_fields c)"
    and ok: "\<not> isl (construct c kw)"
  shows "\<exists>obj. construct c (omit k kw) = Inr obj \<and> getattr obj k = Some VNone
           \<and> VNone \<notin> set zero_like"
proof -
  from optional_field_declared [OF fam opt]
  obtain f where mem: "f \<in> set (model_fields c)" and nm: "fname f = k"
    and dv: "default_value f = Some VNone"
    by blast
  from fam have c: "c \<noteq> Arc" by auto
  from construct_omit [OF c mem dv ok] nm show ?thesis
    by (simp add: zero_like_def)
qed

theorem optional_fields_absent_witness:
  "\<exists>obj. construct ACBus [(''name'', VStr ''b''), (''number'', VInt 1)] = Inr obj
         \<and> getattr obj ''angle'' = Some VNone \<and> VNone \<notin> set zero_like"
proof -
  have ok: "\<not> isl (construct ACBus [(''name'', VStr ''b''), (''angle'', VFloat 0), (''number'', VInt 1)])"
    by (simp add: fields_eq eval_simps)
  have fam: "ACBus \<in> {Bus, DCBus, ACBus}" by simp
  have opt: "''angle'' \<in> set (optional_fields ACBus)" by (simp add: optional_fields_def)
  from optional_fields_absent [OF fam opt ok] show ?thesis
    by (simp add: omit_def)
qed

lemma construct_Inr_class: "construct c kw = Inr obj \<Longrightarrow> \<exists>vs. obj = VInst c vs"
  by (auto simp: construct_eq split: if_splits)

lemma dump_keys_Arc:
  "dump_keys (model_dump by_alias (VInst Arc [(''name'', n), (''from_to'', VInst c1 v1), (''to_from'', VInst c2 v2)]))
     = (if by_alias then [''from'', ''to''] else [''from_to'', ''to_from''])"
  by (simp add: is_excluded_def dump_key_def Arc_fields_eq plain_def loc_of_def)

text \<open>
  C1 (as the code has it). For buses \<open>b1\<close>, \<open>b2\<close> built by the bus classes,
  \<open>Arc(from_to=b1, to_from=b2)\<close> succeeds and its \<open>name\<close> is the empty string, the declared
  default; \<open>Arc(name=s, from_to=b1, to_from=b2)\<close> succeeds as well and its \<open>name\<close> is \<open>s\<close>,
  the value passed. In both cases \<open>name\<close> is not among the keys of the dumped instance,
  by field name or by alias.
\<close>

theorem Arc_name_default_and_excluded:
  assumes f1: "c1 \<in> {Bus, DCBus, ACBus}" and b1: "construct c1 kw1 = Inr b1"
    and f2: "c2 \<in> {Bus, DCBus, ACBus}" and b2: "construct c2 kw2 = Inr b2"
  shows "(\<exists>arc. construct Arc [(''from_to'', b1), (''to_from'', b2)] = Inr arc
            \<and> getattr arc ''name'' = Some (VStr '''')
            \<and> ''name'' \<notin> set (dump_keys (model_dump by_alias arc)))
       \<and> (\<exists>arc. construct Arc [(''name'', VStr s), (''from_to'', b1), (''to_from'', b2)] = Inr arc
            \<and> getattr arc ''name'' = Some (VStr s)
            \<and> ''name'' \<notin> set (dump_keys (model_dump by_alias arc)))"
proof -
  from construct_Inr_class [OF b1] obtain v1 where e1: "b1 = VInst c1 v1" by blast
  from construct_Inr_class [OF b2] obtain v2 where e2: "b2 = VInst c2 v2" by blast
  from f1 have s1: "issubclass c1 Bus" by (auto simp: issubclass_def)
  from f2 have s2: "issubclass c2 Bus" by (auto simp: issubclass_def)
  have d: "construct Arc [(''from_to'', b1), (''to_from'', b2)]
             = Inr (VInst Arc [(''name'', VStr ''''), (''from_to'', b1), (''to_from'', b2)])"
    using s1 s2 unfolding e1 e2
    by (simp add: Arc_fields_eq construct_def validate_field_def validate_value_def
          lookup_keys_def loc_of_def check_constraints_def extra_keys_def used_keys_def
          List.map_filter_def plain_def)
  have n: "construct Arc [(''name'', VStr s), (''from_to'', b1), (''to_from'', b2)]
             = Inr (VInst Arc [(''name'', VStr s), (''from_to'', b1), (''to_from'', b2)])"
    using s1 s2 unfolding e1 e2
    by (simp add: Arc_fields_eq construct_def validate_field_def validate_value_def
          lookup_keys_def loc_of_def check_constraints_def extra_keys_def used_keys_def
          List.map_filter_def plain_def)
  have k: "''name'' \<notin> set (dump_keys (model_dump by_alias
             (VInst Arc [(''name'', m), (''from_to'', b1), (''to_from'', b2)])))" for m
    unfolding e1 e2 dump_keys_Arc by simp
  have g: "getattr (VInst Arc [(''name'', m), (''from_to'', b1), (''to_from'', b2)]) ''name''
             = Some m" for m
    by (simp add: getattr_def)
  from d g [of "VStr ''''"] k [of "VStr ''''"]
  have dflt: "\<exists>arc. construct Arc [(''from_to'', b1), (''to_from'', b2)] = Inr arc
            \<and> getattr arc ''name'' = Some (VStr '''')
            \<and> ''name'' \<notin> set (dump_keys (model_dump by_alias arc))"
    by blast
  from n g [of "VStr s"] k [of "VStr s"]
  have given: "\<exists>arc. construct Arc [(''name'', VStr s), (''from_to'', b1), (''to_from'', b2)] = Inr arc
            \<and> getattr arc ''name'' = Some (VStr s)
            \<and> ''name'' \<notin> set (dump_keys (model_dump by_alias arc))"
    by blast
  from dflt given show ?thesis
    by (rule conjI)
qed

theorem Arc_name_default_and_excluded_witness:
  "(\<exists>arc. construct Arc [(''from_to'', bus_b), (''to_from'', bus_b)] = Inr arc
       \<and> getattr arc ''name'' = Some (VStr '''')
       \<and> ''name'' \<notin> set (dump_keys (model_dump False arc)))
   \<and> (\<exists>arc. construct Arc [(''name'', VStr ''x''), (''from_to'', bus_b), (''to_from'', bus_b)] = Inr arc
       \<and> getattr arc ''name'' = Some (VStr ''x'')
       \<and> ''name'' \<notin> set (dump_keys (model_dump False arc)))"
proof -
  have fam: "Bus \<in> {Bus, DCBus, ACBus}" by simp
  have b: "construct Bus [(''name'', VStr ''b''), (''number'', VInt 1)] = Inr bus_b"
    by (simp add: bus_b_def fields_eq eval_simps)
  from Arc_name_default_and_excluded [OF fam b fam b, of False "''x''"] show ?thesis .
qed

text \<open>
  C1 as stated fails: a name passed to \<open>Arc\<close> is kept. \<open>frozen=True\<close> forbids assigning
  the attribute afterwards, it does not discard the argument of the constructor.
\<close>

theorem Arc_name_passed_is_kept:
  "construct Bus [(''name'', VStr ''b''), (''number'', VInt 1)] = Inr bus_b
   \<and> construct Arc [(''name'', VStr ''x''), (''from_to'', bus_b), (''to_from'', bus_b)] = Inr arc_x
   \<and> getattr arc_x ''name'' = Some (VStr ''x'')
   \<and> getattr arc_x ''name'' \<noteq> Some (VStr '''')"
  by (simp add: bus_b_def arc_x_def getattr_def fields_eq eval_simps)

lemma first_present_mem: "first_present ks kw = Some (k, v) \<Longrightarrow> k \<in> set ks"
  by (induction ks) (auto split: option.splits)

lemma loc_of_mem: "loc_of f \<in> set (lookup_keys f)"
  by (simp add: loc_of_def lookup_keys_def split: option.splits)

lemma validate_field_loc:
  assumes e: "validate_field f kw = Inl e" and d: "d \<in> set e"
  shows "loc d \<in> set (lookup_keys f)"
proof (cases "first_present (lookup_keys f) kw")
  case None
  with e d show ?thesis
    by (auto simp: validate_field_def loc_of_mem split: option.splits)
next
  case (Some kv)
  obtain k v where kv: "kv = (k, v)" by (cases kv)
  from Some kv have "k \<in> set (lookup_keys f)"
    by (simp add: first_present_mem)
  with e d Some kv show ?thesis
    by (auto simp: validate_field_def split: sum.splits)
qed

lemma used_keys_declared: "set (used_keys fs kw) \<subseteq> set (concat (map lookup_keys fs))"
proof (induction fs)
  case Nil
  show ?case by (simp add: used_keys_def List.map_filter_def)
next
  case (Cons g fs)
  have "set (case map_option fst (first_present (lookup_keys g) kw) of None \<Rightarrow> [] | Some k \<Rightarrow> [k])
          \<subseteq> set (lookup_keys g)"
  proof (cases "first_present (lookup_keys g) kw")
    case None
    then show ?thesis by simp
  next
    case (Some kv)
    obtain k v where kv: "kv = (k, v)" by (cases kv)
    from Some kv have "k \<in> set (lookup_keys g)"
      by (simp add: first_present_mem)
    with Some kv show ?thesis by simp
  qed
  with Cons show ?case
    unfolding used_keys_Cons by auto
qed

lemma undeclared_key_extra:
  assumes "k \<in> fst ` set kw" and "k \<notin> set (declared_keys c)"
  shows "k \<in> set (extra_keys (model_fields c) kw)"
  using assms used_keys_declared [of "model_fields c" kw]
  by (auto simp: extra_keys_def declared_keys_def)

text \<open>
  C9. For every class and every call in which some declared field is in error (wrong
  type, bound violated, required and missing) or some key is neither the name nor the
  alias of a declared field, construction returns a ValidationError and no instance; the
  error has an entry, located at one of the field's keys, for every field in error, and
  an entry for every such key.
\<close>

theorem construction_reports_every_violation:
  assumes viol: "(\<exists>f \<in> set (model_fields c). isl (validate_field f kw))
               \<or> (\<exists>k \<in> fst ` set kw. k \<notin> set (declared_keys c))"
  shows "\<exists>es. construct c kw = Inl es \<and> es \<noteq> []
           \<and> (\<forall>f \<in> set (model_fields c). isl (validate_field f kw) \<longrightarrow>
                 (\<exists>e \<in> set es. e \<in> set (field_errors f kw) \<and> loc e \<in> set (lookup_keys f)))
           \<and> (\<forall>k \<in> fst ` set kw. k \<notin> set (declared_keys c) \<longrightarrow>
                 ErrorDetail k ExtraForbidden \<in> set es)"
proof -
  let ?es = "all_errors c kw"
  have fields: "\<exists>e \<in> set ?es. e \<in> set (field_errors f kw) \<and> loc e \<in> set (lookup_keys f)"
    if mem: "f \<in> set (model_fields c)" and bad: "isl (validate_field f kw)" for f
  proof -
    from bad obtain e where e: "validate_field f kw = Inl e"
      by (cases "validate_field f kw") auto
    then have "e \<noteq> []" by (rule validate_field_Inl_nonempty)
    then obtain d where d: "d \<in> set e" by (cases e) auto
    from e have fe: "field_errors f kw = e" by (simp add: field_errors_def)
    from d fe mem have "d \<in> set ?es"
      by (auto simp: all_errors_def)
    moreover from e d have "loc d \<in> set (lookup_keys f)" by (rule validate_field_loc)
    ultimately show ?thesis using d fe by blast
  qed
  have extras: "ErrorDetail k ExtraForbidden \<in> set ?es"
    if "k \<in> fst ` set kw" and "k \<notin> set (declared_keys c)" for k
    using undeclared_key_extra [OF that] by (simp add: all_errors_def)
  from viol fields extras have ne: "?es \<noteq> []"
    by fastforce
  then have "construct c kw = Inl ?es"
    by (simp add: construct_eq)
  with ne fields extras show ?thesis
    by blast
qed

theorem construction_reports_every_violation_witness:
  "\<exists>es. construct ACBus
       [(''nme'', VStr ''x''), (''number'', VInt 0), (''angle'', VFloat 2)] = Inl es
     \<and> ErrorDetail ''nme'' ExtraForbidden \<in> set es"
proof -
  let ?kw = "[(''nme'', VStr ''x''), (''number'', VInt 0), (''angle'', VFloat 2)]"
  have "''nme'' \<in> fst ` set ?kw" and "''nme'' \<notin> set (declared_keys ACBus)"
    by (simp_all add: declared_keys_def fields_eq lookup_keys_def plain_def)
  then have v: "(\<exists>f \<in> set (model_fields ACBus). isl (validate_field f ?kw))
               \<or> (\<exists>k \<in> fst ` set ?kw. k \<notin> set (declared_keys ACBus))"
    by blast
  from construction_reports_every_violation [OF v] \<open>''nme'' \<in> fst ` set ?kw\<close>
    \<open>''nme'' \<notin> set (declared_keys ACBus)\<close>
  show ?thesis by blast
qed

end
